theory Spec2Isabelle
  imports Main "HOL-Library.AList"
begin

section \<open>Summary polling of the sidebar provider\<close>

text \<open>
  The development embeds the summary polling of
  \<^verbatim>\<open>src/frontend/src/components/Sidebar/SidebarProvider.tsx\<close>:
  \<^verbatim>\<open>startSummaryPolling\<close>, the asynchronous interval callback it installs,
  \<^verbatim>\<open>stopSummaryPolling\<close> and the effect that clears intervals.

  The program is event driven, so every handler is a function from the state of the
  provider to its next state, and a run is a list of events:
  \<^item> a call of \<^verbatim>\<open>startSummaryPolling\<close> or \<^verbatim>\<open>stopSummaryPolling\<close>;
  \<^item> an interval firing: the callback runs up to its \<^verbatim>\<open>await invoke(...)\<close>,
    or to the \<^verbatim>\<open>return\<close> of the timeout branch;
  \<^item> the awaited \<^verbatim>\<open>invoke\<close> settling: the rest of the callback runs;
  \<^item> React rendering the provider again after \<^verbatim>\<open>setActiveSummaryPolls\<close>.

  Events may come in any order. What is taken from outside the file: \<^verbatim>\<open>invoke\<close>
  resolves to an object or rejects; an \<^verbatim>\<open>onUpdate\<close> returns normally and its effect
  is only recorded; callers call the \<^verbatim>\<open>startSummaryPolling\<close> and
  \<^verbatim>\<open>stopSummaryPolling\<close> of the latest render; a cleared interval does not fire,
  and the cleanup of an effect runs with the values of the render that registered it,
  before the effect of a render whose dependency changed.
\<close>

subsection \<open>Data\<close>

text \<open>
  The value \<^verbatim>\<open>setInterval\<close> returns. Timers are numbered in the order of
  their creation; a timer handle is never falsy, whatever its number here.
\<close>

type_synonym timeout = nat

text \<open>The identity of an \<^verbatim>\<open>onUpdate\<close> function passed by a caller.\<close>

type_synonym sink = nat

text \<open>
  What \<^verbatim>\<open>api_get_summary\<close> resolves to and what \<^verbatim>\<open>onUpdate\<close> receives.
  The callback reads the field \<^verbatim>\<open>status\<close> only; the status is a string, as on
  the wire, so values outside the documented ones exist.
\<close>

record summary =
  status :: string
  error :: "string option"
  data :: "string option"

text \<open>
  What a rejected \<^verbatim>\<open>invoke\<close> throws: an \<^verbatim>\<open>Error\<close> object with its message, or
  any other value, such as the string a backend command fails with, given by its text.
\<close>

datatype thrown = ErrorObject string | OtherValue string

datatype outcome = Resolved summary | Rejected thrown

text \<open>
  The variables closed over by one interval callback: the three parameters of
  \<^verbatim>\<open>startSummaryPolling\<close> and \<^verbatim>\<open>let pollCount = 0\<close>.
\<close>

record poll =
  meetingId :: string
  processId :: string
  onUpdate :: sink
  pollCount :: nat

text \<open>
  The state of the provider.
  \<^item> \<open>activeSummaryPolls\<close> is the \<^verbatim>\<open>Map\<close> of the last render, the one the
    current \<^verbatim>\<open>startSummaryPolling\<close> and \<^verbatim>\<open>stopSummaryPolling\<close> read
    (both are \<^verbatim>\<open>useCallback\<close>s on \<^verbatim>\<open>[activeSummaryPolls]\<close>). A \<^verbatim>\<open>Map\<close>
    keeps its keys in insertion order, so it is an association list.
  \<^item> \<open>latest\<close> is the React state with every updater passed to
    \<^verbatim>\<open>setActiveSummaryPolls\<close> applied; \<open>dirty\<close> says that an updater ran since
    the last render (each one returns a new \<^verbatim>\<open>Map\<close>).
  \<^item> \<open>polls\<close> holds the closure of every interval created, at the index that is its
    timer; \<open>cleared\<close> the timers \<^verbatim>\<open>clearInterval\<close> was called on.
  \<^item> \<open>awaiting\<close> lists the callbacks suspended at \<^verbatim>\<open>await invoke\<close>, by timer.
  \<^item> \<open>calls\<close> records every call of an \<^verbatim>\<open>onUpdate\<close>: the timer whose callback
    made it, the function called and the argument.
\<close>

record provider =
  activeSummaryPolls :: "(string \<times> timeout) list"
  latest :: "(string \<times> timeout) list"
  dirty :: bool
  polls :: "poll list"
  cleared :: "timeout set"
  awaiting :: "timeout list"
  calls :: "(timeout \<times> sink \<times> summary) list"

definition initial :: provider where
  "initial = \<lparr>activeSummaryPolls = [], latest = [], dirty = False, polls = [],
     cleared = {}, awaiting = [], calls = []\<rparr>"

subsection \<open>Operations\<close>

definition MAX_POLLS :: nat where
  "MAX_POLLS = 120"

definition clearInterval :: "timeout \<Rightarrow> provider \<Rightarrow> provider" where
  "clearInterval t s = s\<lparr>cleared := insert t (cleared s)\<rparr>"

definition setActiveSummaryPolls ::
  "((string \<times> timeout) list \<Rightarrow> (string \<times> timeout) list) \<Rightarrow> provider \<Rightarrow> provider" where
  "setActiveSummaryPolls f s = s\<lparr>latest := f (latest s), dirty := True\<rparr>"

text \<open>A call \<^verbatim>\<open>onUpdate(r)\<close> made by the callback of timer \<open>t\<close>.\<close>

definition callOnUpdate :: "timeout \<Rightarrow> summary \<Rightarrow> provider \<Rightarrow> provider" where
  "callOnUpdate t r s = s\<lparr>calls := calls s @ [(t, onUpdate (polls s ! t), r)]\<rparr>"

definition timedOut :: summary where
  "timedOut = \<lparr>status = ''error'',
     error = Some ''Summary generation timed out after 10 minutes. Please try again or check your model configuration.'',
     data = None\<rparr>"

text \<open>\<^verbatim>\<open>error instanceof Error ? error.message : 'Unknown error'\<close>\<close>

fun message :: "thrown \<Rightarrow> string" where
  "message (ErrorObject m) = m"
| "message (OtherValue v) = ''Unknown error''"

definition failed :: "thrown \<Rightarrow> summary" where
  "failed e = \<lparr>status = ''error'', error = Some (message e), data = None\<rparr>"

text \<open>
  \<^verbatim>\<open>startSummaryPolling\<close>: the interval of the rendered map is cleared when the
  key is there, a new interval is created with \<open>pollCount = 0\<close>, and the updater
  \<^verbatim>\<open>prev => new Map(prev).set(meetingId, pollInterval)\<close> is queued. Nothing tests
  the key.
\<close>

definition startSummaryPolling :: "string \<Rightarrow> string \<Rightarrow> sink \<Rightarrow> provider \<Rightarrow> provider" where
  "startSummaryPolling mid pid cb s =
    (let s1 = (case map_of (activeSummaryPolls s) mid of
                 Some old \<Rightarrow> clearInterval old s
               | None \<Rightarrow> s);
         pollInterval = length (polls s1);
         s2 = s1\<lparr>polls := polls s1 @
                [\<lparr>meetingId = mid, processId = pid, onUpdate = cb, pollCount = 0\<rparr>]\<rparr>
     in setActiveSummaryPolls (AList.update mid pollInterval) s2)"

text \<open>\<^verbatim>\<open>stopSummaryPolling\<close> reads the rendered map as well.\<close>

definition stopSummaryPolling :: "string \<Rightarrow> provider \<Rightarrow> provider" where
  "stopSummaryPolling mid s =
    (case map_of (activeSummaryPolls s) mid of
       Some pollInterval \<Rightarrow>
         setActiveSummaryPolls (AList.delete mid) (clearInterval pollInterval s)
     | None \<Rightarrow> s)"

text \<open>
  The interval \<open>t\<close> fires. A timer that was cleared, or never created, does not fire.
  The callback increments \<open>pollCount\<close>; from \<open>MAX_POLLS\<close> on it stops the poll and
  reports the timeout, otherwise it calls \<^verbatim>\<open>invoke\<close> and is suspended.
\<close>

definition pollTick :: "timeout \<Rightarrow> provider \<Rightarrow> provider" where
  "pollTick t s =
    (if t < length (polls s) \<and> t \<notin> cleared s then
       let c = (polls s ! t)\<lparr>pollCount := pollCount (polls s ! t) + 1\<rparr>;
           s1 = s\<lparr>polls := (polls s)[t := c]\<rparr>
       in if pollCount c \<ge> MAX_POLLS then
            callOnUpdate t timedOut
              (setActiveSummaryPolls (AList.delete (meetingId c)) (clearInterval t s1))
          else s1\<lparr>awaiting := awaiting s1 @ [t]\<rparr>
     else s)"

text \<open>
  The block that ends a poll after a fetch, written three times in the callback:
  \<^verbatim>\<open>clearInterval(pollInterval)\<close> and the updater that deletes \<^verbatim>\<open>meetingId\<close>
  from a copy of the map.
\<close>

definition stopPoll :: "timeout \<Rightarrow> provider \<Rightarrow> provider" where
  "stopPoll t s =
     setActiveSummaryPolls (AList.delete (meetingId (polls s ! t))) (clearInterval t s)"

text \<open>
  The \<^verbatim>\<open>invoke\<close> of a suspended callback of timer \<open>t\<close> settles and the callback
  resumes: the \<^verbatim>\<open>try\<close> block goes on for a resolved value, the \<^verbatim>\<open>catch\<close> block
  runs for a rejection. \<open>pollCount\<close> is read at that moment.
\<close>

definition pollResume :: "timeout \<Rightarrow> outcome \<Rightarrow> provider \<Rightarrow> provider" where
  "pollResume t out s =
    (if t < length (polls s) \<and> t \<in> set (awaiting s) then
       let s0 = s\<lparr>awaiting := remove1 t (awaiting s)\<rparr>
       in case out of
            Resolved result \<Rightarrow>
              let s1 = callOnUpdate t result s0
              in if status result = ''completed'' \<or> status result = ''error''
                    \<or> status result = ''failed'' then stopPoll t s1
                 else if status result = ''idle'' \<and> pollCount (polls s ! t) > 1 then
                   stopPoll t s1
                 else s1
          | Rejected e \<Rightarrow> stopPoll t (callOnUpdate t (failed e) s0)
     else s)"

text \<open>
  React renders the provider again once an updater ran. The effect
  \<^verbatim>\<open>useEffect(() => () => activeSummaryPolls.forEach(clearInterval), [activeSummaryPolls])\<close>
  depends on the map, so its cleanup runs at every such render, on the map of the
  render before; then the callbacks read the new map.
\<close>

definition render :: "provider \<Rightarrow> provider" where
  "render s =
    (if dirty s then
       s\<lparr>cleared := cleared s \<union> snd ` set (activeSummaryPolls s),
         activeSummaryPolls := latest s, dirty := False\<rparr>
     else s)"

subsection \<open>Runs\<close>

datatype event =
    Start string string sink
  | Stop string
  | Tick timeout
  | Settle timeout outcome
  | Render

fun step :: "event \<Rightarrow> provider \<Rightarrow> provider" where
  "step (Start mid pid cb) s = startSummaryPolling mid pid cb s"
| "step (Stop mid) s = stopSummaryPolling mid s"
| "step (Tick t) s = pollTick t s"
| "step (Settle t out) s = pollResume t out s"
| "step Render s = render s"

fun run :: "event list \<Rightarrow> provider \<Rightarrow> provider" where
  "run [] s = s"
| "run (e # es) s = run es (step e s)"

text \<open>The calls made by the callback of one timer.\<close>

definition callsBy :: "timeout \<Rightarrow> provider \<Rightarrow> (timeout \<times> sink \<times> summary) list" where
  "callsBy t s = filter (\<lambda>c. fst c = t) (calls s)"

subsection \<open>Scenarios\<close>

text \<open>Results of \<^verbatim>\<open>api_get_summary\<close> and runs used as examples below.\<close>

definition processing :: summary where
  "processing = \<lparr>status = ''processing'', error = None, data = None\<rparr>"

definition completed :: summary where
  "completed = \<lparr>status = ''completed'', error = None, data = Some ''# Summary''\<rparr>"

definition idle :: summary where
  "idle = \<lparr>status = ''idle'', error = None, data = None\<rparr>"

text \<open>
  A poll is stopped while its first \<^verbatim>\<open>invoke\<close> is in flight; the provider has
  rendered after the start and after the stop.
\<close>

definition stopInFlight :: "event list" where
  "stopInFlight = [Start ''m1'' ''p1'' 0, Render, Tick 0, Stop ''m1'', Render]"

text \<open>The same with a second start for the key in place of the stop.\<close>

definition replaceInFlight :: "event list" where
  "replaceInFlight = [Start ''m1'' ''p1'' 0, Render, Tick 0, Start ''m1'' ''p2'' 1, Render]"

text \<open>A poll whose first 119 ticks all see \<^verbatim>\<open>processing\<close>.\<close>

definition untilTimeout :: "event list" where
  "untilTimeout = Start ''m1'' ''p1'' 0 # Render #
     concat (replicate 119 [Tick 0, Settle 0 (Resolved processing)])"

text \<open>A poll suspended at the \<^verbatim>\<open>invoke\<close> of its first tick.\<close>

definition scenarioC :: "event list" where
  "scenarioC = [Start ''m1'' ''p1'' 0, Render, Tick 0]"

text \<open>
  Scenario A: \<^verbatim>\<open>processing\<close> at the first two ticks, \<^verbatim>\<open>completed\<close> at the third.
\<close>

definition scenarioA :: "event list" where
  "scenarioA = [Start ''m1'' ''p1'' 0, Render,
     Tick 0, Settle 0 (Resolved processing),
     Tick 0, Settle 0 (Resolved processing),
     Tick 0, Settle 0 (Resolved completed)]"

text \<open>A poll started with the empty string as its key, up to its first update.\<close>

definition emptyKey :: "event list" where
  "emptyKey = [Start [] ''p1'' 0, Render, Tick 0, Settle 0 (Resolved processing)]"

text \<open>Two polls started from the same render, and the render that follows.\<close>

definition stopOther :: "event list" where
  "stopOther = [Start ''m1'' ''p1'' 0, Start ''m2'' ''p2'' 1, Render]"

text \<open>A status outside the documented ones.\<close>

definition regenerating :: summary where
  "regenerating = \<lparr>status = ''regenerating'', error = None, data = None\<rparr>"

text \<open>
  What holds of every state a run reaches from \<open>initial\<close>: timers that are cleared,
  registered, suspended or recorded in a call were created; a recorded call went to the
  function of its timer; the latest map has one entry for a key; and \<open>pollCount\<close> is at
  most \<open>MAX_POLLS\<close>, and below it while the timer runs.
\<close>

definition wellFormed :: "provider \<Rightarrow> bool" where
  "wellFormed s \<longleftrightarrow>
     (\<forall>t \<in> cleared s. t < length (polls s)) \<and>
     (\<forall>t \<in> snd ` set (activeSummaryPolls s). t < length (polls s)) \<and>
     (\<forall>t \<in> snd ` set (latest s). t < length (polls s)) \<and>
     (\<forall>t \<in> set (awaiting s). t < length (polls s)) \<and>
     (\<forall>c \<in> set (calls s). fst c < length (polls s) \<and> fst (snd c) = onUpdate (polls s ! fst c)) \<and>
     distinct (map fst (latest s)) \<and>
     distinct (map fst (activeSummaryPolls s)) \<and>
     (\<forall>t < length (polls s). pollCount (polls s ! t) \<le> MAX_POLLS \<and>
        (t \<notin> cleared s \<longrightarrow> pollCount (polls s ! t) < MAX_POLLS))"


subsection \<open>Cleared timers\<close>

lemmas handler_defs =
  clearInterval_def setActiveSummaryPolls_def callOnUpdate_def stopPoll_def
  startSummaryPolling_def stopSummaryPolling_def pollTick_def pollResume_def render_def

lemma cleared_step: "t \<in> cleared s \<Longrightarrow> t \<in> cleared (step e s)"
  by (cases e) (auto simp: handler_defs Let_def split: option.splits outcome.splits)

lemma cleared_run: "t \<in> cleared s \<Longrightarrow> t \<in> cleared (run evs s)"
  by (induction evs arbitrary: s) (auto simp: cleared_step)

lemma length_polls_step: "length (polls (step e s)) \<ge> length (polls s)"
  by (cases e) (auto simp: handler_defs Let_def split: option.splits outcome.splits)

lemma length_polls_run: "length (polls s) \<le> length (polls (run evs s))"
proof (induction evs arbitrary: s)
  case Nil
  show ?case by simp
next
  case (Cons e evs)
  have "length (polls s) \<le> length (polls (step e s))" by (rule length_polls_step)
  also have "\<dots> \<le> length (polls (run evs (step e s)))" by (rule Cons.IH)
  finally show ?case by simp
qed

lemma count_list_remove1_same:
  "x \<in> set xs \<Longrightarrow> Suc (count_list (remove1 x xs) x) = count_list xs x"
  by (induction xs) auto

lemma count_list_remove1_other:
  "x \<noteq> y \<Longrightarrow> count_list (remove1 y xs) x = count_list xs x"
  by (induction xs) auto

lemma dead_step:
  assumes "t \<in> cleared s"
  shows "length (callsBy t (step e s)) + count_list (awaiting (step e s)) t
         = length (callsBy t s) + count_list (awaiting s) t"
proof (cases e)
  case (Start mid pid cb)
  then show ?thesis
    by (simp add: handler_defs callsBy_def Let_def split: option.splits)
next
  case (Stop mid)
  then show ?thesis
    by (simp add: handler_defs callsBy_def split: option.splits)
next
  case (Tick u)
  with assms show ?thesis
    by (auto simp: handler_defs callsBy_def Let_def)
next
  case (Settle u out)
  show ?thesis
  proof (cases "u = t")
    case True
    with Settle count_list_remove1_same[of t "awaiting s"] show ?thesis
      by (auto simp: handler_defs callsBy_def Let_def split: outcome.splits)
  next
    case False
    with Settle count_list_remove1_other[of t u "awaiting s"] show ?thesis
      by (auto simp: handler_defs callsBy_def Let_def split: outcome.splits)
  qed
next
  case Render
  then show ?thesis
    by (simp add: handler_defs callsBy_def)
qed

lemma dead_run:
  "t \<in> cleared s \<Longrightarrow>
   length (callsBy t (run evs s)) + count_list (awaiting (run evs s)) t
     = length (callsBy t s) + count_list (awaiting s) t"
proof (induction evs arbitrary: s)
  case Nil
  show ?case by simp
next
  case (Cons e evs)
  from Cons.prems have "t \<in> cleared (step e s)" by (rule cleared_step)
  from Cons.IH[OF this] dead_step[OF Cons.prems, of e] show ?case by simp
qed

lemma dead_poll_step:
  "t \<in> cleared s \<Longrightarrow> t < length (polls s) \<Longrightarrow> polls (step e s) ! t = polls s ! t"
  by (cases e)
    (auto simp: handler_defs Let_def nth_append nth_list_update split: option.splits outcome.splits)

lemma dead_poll_run:
  "t \<in> cleared s \<Longrightarrow> t < length (polls s) \<Longrightarrow> polls (run evs s) ! t = polls s ! t"
proof (induction evs arbitrary: s)
  case Nil
  show ?case by simp
next
  case (Cons e evs)
  have c: "t \<in> cleared (step e s)" using Cons.prems(1) by (rule cleared_step)
  have l: "t < length (polls (step e s))"
    using Cons.prems(2) length_polls_step[of s e] by simp
  from Cons.IH[OF c l] dead_poll_step[OF Cons.prems, of e] show ?case by simp
qed

subsection \<open>Reachable states\<close>

lemma in_update_cases:
  "(a, b) \<in> set (AList.update k v al) \<Longrightarrow> b = v \<or> (a, b) \<in> set al"
  by (induction al) (auto split: if_splits)

lemma in_delete_before: "(a, b) \<in> set (AList.delete k al) \<Longrightarrow> (a, b) \<in> set al"
  by (simp add: AList.delete_eq)

lemma wellFormed_initial: "wellFormed initial"
  by (simp add: wellFormed_def initial_def)

lemma wellFormed_start:
  assumes "wellFormed s"
  shows "wellFormed (startSummaryPolling mid pid cb s)"
  using assms
  unfolding wellFormed_def
  by (auto simp: handler_defs Let_def nth_append distinct_update MAX_POLLS_def less_Suc_eq
           split: option.splits dest!: map_of_SomeD in_update_cases)

lemma wellFormed_stop:
  assumes "wellFormed s"
  shows "wellFormed (stopSummaryPolling mid s)"
  using assms
  unfolding wellFormed_def
  by (auto simp: handler_defs distinct_delete split: option.splits
           dest!: map_of_SomeD in_delete_before)

lemma wellFormed_tick:
  assumes "wellFormed s"
  shows "wellFormed (pollTick t s)"
  using assms
  unfolding wellFormed_def
  by (auto simp: handler_defs Let_def distinct_delete nth_list_update MAX_POLLS_def
           dest!: in_delete_before)

lemma wellFormed_resume:
  assumes "wellFormed s"
  shows "wellFormed (pollResume t out s)"
  using assms
  unfolding wellFormed_def
  by (auto simp: handler_defs Let_def distinct_delete
           split: outcome.splits dest!: in_delete_before dest: notin_set_remove1)

lemma wellFormed_render:
  assumes "wellFormed s"
  shows "wellFormed (render s)"
  using assms
  unfolding wellFormed_def
  by (auto simp: handler_defs)

lemma wellFormed_step: "wellFormed s \<Longrightarrow> wellFormed (step e s)"
  by (cases e)
    (simp_all add: wellFormed_start wellFormed_stop wellFormed_tick wellFormed_resume
       wellFormed_render)

lemma wellFormed_run: "wellFormed s \<Longrightarrow> wellFormed (run evs s)"
  by (induction evs arbitrary: s) (simp_all add: wellFormed_step)

lemma wellFormed_reachable: "wellFormed (run evs initial)"
  by (rule wellFormed_run[OF wellFormed_initial])


subsection \<open>Runs and fixed fields\<close>

lemma run_append: "run (xs @ ys) s = run ys (run xs s)"
  by (induction xs arbitrary: s) simp_all

lemma never_fires_again: "t \<in> cleared s \<Longrightarrow> pollTick t (run evs s) = run evs s"
  using cleared_run[of t s evs] by (simp add: pollTick_def)

lemma dead_calls_bound:
  "t \<in> cleared s \<Longrightarrow>
   length (callsBy t (run evs s)) \<le> length (callsBy t s) + count_list (awaiting s) t"
  using dead_run[of t s evs] by simp

lemma poll_fixed_step:
  "t < length (polls s) \<Longrightarrow>
   onUpdate (polls (step e s) ! t) = onUpdate (polls s ! t) \<and>
   meetingId (polls (step e s) ! t) = meetingId (polls s ! t)"
  by (cases e)
    (auto simp: handler_defs Let_def nth_append nth_list_update split: option.splits outcome.splits)

lemma poll_fixed_run:
  "t < length (polls s) \<Longrightarrow>
   onUpdate (polls (run evs s) ! t) = onUpdate (polls s ! t) \<and>
   meetingId (polls (run evs s) ! t) = meetingId (polls s ! t)"
proof (induction evs arbitrary: s)
  case Nil
  show ?case by simp
next
  case (Cons e evs)
  have l: "t < length (polls (step e s))"
    using Cons.prems length_polls_step[of s e] by simp
  from Cons.IH[OF l] poll_fixed_step[OF Cons.prems, of e] show ?case by simp
qed

section \<open>Cancellation\<close>

text \<open>
  C1, as stated: once \<open>stop(k)\<close> has returned, or a later \<open>start\<close> has replaced the
  handle, the cancelled handle's \<open>onUpdate\<close> is never invoked again, also for a tick whose
  fetch was in flight. The callback does not look at the timer after its \<^verbatim>\<open>await\<close>:
  in the run \<open>stopInFlight\<close> the key is gone from the map, the interval is cleared and
  no call was made when the stop has returned and the provider has rendered, and the
  fetch that then settles is delivered to the callback.
\<close>

theorem stop_in_flight_counterexample:
  "map_of (latest (run stopInFlight initial)) ''m1'' = None \<and>
   0 \<in> cleared (run stopInFlight initial) \<and>
   calls (run stopInFlight initial) = [] \<and>
   calls (run (stopInFlight @ [Settle 0 (Resolved processing)]) initial)
     = [(0, 0, processing)]"
  by code_simp

text \<open>
  C1, amended: when the rendered map holds timer \<open>t\<close> for key \<open>k\<close>, then after
  \<open>stopSummaryPolling k\<close>, and after a \<open>startSummaryPolling\<close> for \<open>k\<close>, whatever
  happens next, the interval \<open>t\<close> is cleared and never fires again, and its callback
  is invoked at most once for each fetch that was in flight at the cancellation, and
  never when none was.
\<close>

theorem cancelled_poll_only_in_flight:
  assumes "map_of (activeSummaryPolls s) k = Some t"
  shows "(t \<in> cleared (run evs (stopSummaryPolling k s)) \<and>
          pollTick t (run evs (stopSummaryPolling k s)) = run evs (stopSummaryPolling k s) \<and>
          length (callsBy t (run evs (stopSummaryPolling k s)))
            \<le> length (callsBy t s) + count_list (awaiting s) t) \<and>
         (t \<in> cleared (run evs (startSummaryPolling k j cb s)) \<and>
          pollTick t (run evs (startSummaryPolling k j cb s))
            = run evs (startSummaryPolling k j cb s) \<and>
          length (callsBy t (run evs (startSummaryPolling k j cb s)))
            \<le> length (callsBy t s) + count_list (awaiting s) t)"
proof -
  have stop: "t \<in> cleared (stopSummaryPolling k s)"
    "callsBy t (stopSummaryPolling k s) = callsBy t s"
    "awaiting (stopSummaryPolling k s) = awaiting s"
    using assms by (simp_all add: handler_defs callsBy_def)
  have start: "t \<in> cleared (startSummaryPolling k j cb s)"
    "callsBy t (startSummaryPolling k j cb s) = callsBy t s"
    "awaiting (startSummaryPolling k j cb s) = awaiting s"
    using assms by (simp_all add: handler_defs callsBy_def Let_def)
  show ?thesis
    using cleared_run[OF stop(1), of evs] never_fires_again[OF stop(1), of evs]
      dead_calls_bound[OF stop(1), of evs]
      cleared_run[OF start(1), of evs] never_fires_again[OF start(1), of evs]
      dead_calls_bound[OF start(1), of evs]
    by (simp add: stop(2,3) start(2,3))
qed

theorem cancelled_poll_only_in_flight_witness:
  "map_of (activeSummaryPolls (run [Start ''m1'' ''p1'' 0, Render, Tick 0] initial)) ''m1'' = Some 0 \<and>
   0 \<in> cleared (run [Render, Settle 0 (Resolved processing), Tick 0]
          (stopSummaryPolling ''m1'' (run [Start ''m1'' ''p1'' 0, Render, Tick 0] initial))) \<and>
   length (callsBy 0 (run [Render, Settle 0 (Resolved processing), Tick 0]
          (stopSummaryPolling ''m1'' (run [Start ''m1'' ''p1'' 0, Render, Tick 0] initial)))) \<le> 1"
proof -
  have h: "map_of (activeSummaryPolls (run [Start ''m1'' ''p1'' 0, Render, Tick 0] initial)) ''m1''
      = Some 0"
    by code_simp
  have c: "length (callsBy 0 (run [Start ''m1'' ''p1'' 0, Render, Tick 0] initial))
      + count_list (awaiting (run [Start ''m1'' ''p1'' 0, Render, Tick 0] initial)) 0 = 1"
    by code_simp
  show ?thesis
    using h c cancelled_poll_only_in_flight[OF h,
      of "[Render, Settle 0 (Resolved processing), Tick 0]"]
    by simp
qed

section \<open>Replacement\<close>

lemma calls_sink:
  "wellFormed s \<Longrightarrow> c \<in> set (calls s) \<Longrightarrow> fst (snd c) = onUpdate (polls s ! fst c)"
  by (simp add: wellFormed_def)

lemma polls_start:
  "polls (startSummaryPolling k j cb s)
     = polls s @ [\<lparr>meetingId = k, processId = j, onUpdate = cb, pollCount = 0\<rparr>]"
  by (simp add: handler_defs Let_def split: option.splits)

lemma latest_start:
  "map_of (latest (startSummaryPolling k j cb s)) k = Some (length (polls s))"
  by (simp add: handler_defs Let_def update_conv' split: option.splits)

text \<open>
  C2, as stated: at most one live handle for a key, and a start for a key with a live
  handle cancels and replaces it, after which the original callback receives no further
  calls and the new one receives all subsequent calls. In the run \<open>replaceInFlight\<close>
  the second start has replaced the handle (the map holds timer 1, whose function is 1,
  timer 0 is cleared and nothing was called), and the fetch of the first handle that
  then settles is delivered to the original function 0.
\<close>

theorem replace_in_flight_counterexample:
  "map_of (latest (run replaceInFlight initial)) ''m1'' = Some 1 \<and>
   onUpdate (polls (run replaceInFlight initial) ! 1) = 1 \<and>
   0 \<in> cleared (run replaceInFlight initial) \<and>
   calls (run replaceInFlight initial) = [] \<and>
   calls (run (replaceInFlight @ [Settle 0 (Resolved processing)]) initial)
     = [(0, 0, processing)]"
  by code_simp

text \<open>
  C2, amended: the map holds one entry for a key at any instant. In a reachable state
  whose rendered map holds timer \<open>t\<close> for \<open>k\<close>, \<open>startSummaryPolling k jn cbn\<close> clears
  \<open>t\<close> and puts a new handle with \<open>pollCount = 0\<close> and function \<open>cbn\<close> in its place;
  afterwards \<open>t\<close> never fires again, its callback is invoked at most once for each
  fetch in flight at the replacement, and every call made by the new handle goes to
  \<open>cbn\<close>.
\<close>

theorem start_replaces_poll:
  assumes s: "s = run pre initial"
    and s': "s' = startSummaryPolling k jn cbn s"
    and old: "map_of (activeSummaryPolls s) k = Some t"
  shows "distinct (map fst (latest (run evs s'))) \<and>
         distinct (map fst (activeSummaryPolls (run evs s'))) \<and>
         map_of (latest s') k = Some (length (polls s)) \<and>
         polls s' ! length (polls s)
           = \<lparr>meetingId = k, processId = jn, onUpdate = cbn, pollCount = 0\<rparr> \<and>
         t \<in> cleared (run evs s') \<and>
         pollTick t (run evs s') = run evs s' \<and>
         length (callsBy t (run evs s')) \<le> length (callsBy t s) + count_list (awaiting s) t \<and>
         (\<forall>c \<in> set (callsBy (length (polls s)) (run evs s')). fst (snd c) = cbn)"
proof -
  have wf: "wellFormed (run evs s')"
    unfolding s s' by (intro wellFormed_run wellFormed_start wellFormed_reachable)
  have dead: "t \<in> cleared s'" "callsBy t s' = callsBy t s" "awaiting s' = awaiting s"
    using old unfolding s' by (simp_all add: handler_defs callsBy_def Let_def)
  have new: "polls s' ! length (polls s)
      = \<lparr>meetingId = k, processId = jn, onUpdate = cbn, pollCount = 0\<rparr>"
    unfolding s' by (simp add: polls_start)
  have len: "length (polls s) < length (polls s')"
    unfolding s' by (simp add: polls_start)
  have sink: "onUpdate (polls (run evs s') ! length (polls s)) = cbn"
    using poll_fixed_run[OF len, of evs] new by simp
  have to: "\<forall>c \<in> set (callsBy (length (polls s)) (run evs s')). fst (snd c) = cbn"
  proof
    fix c
    assume "c \<in> set (callsBy (length (polls s)) (run evs s'))"
    then have "c \<in> set (calls (run evs s'))" and "fst c = length (polls s)"
      by (simp_all add: callsBy_def)
    with calls_sink[OF wf, of c] sink show "fst (snd c) = cbn" by simp
  qed
  have reg: "map_of (latest s') k = Some (length (polls s))"
    unfolding s' by (rule latest_start)
  from wf have d: "distinct (map fst (latest (run evs s')))"
    "distinct (map fst (activeSummaryPolls (run evs s')))"
    by (simp_all add: wellFormed_def)
  show ?thesis
    using d reg new to cleared_run[OF dead(1), of evs] never_fires_again[OF dead(1), of evs]
      dead_calls_bound[OF dead(1), of evs]
    by (simp add: dead(2,3))
qed

theorem start_replaces_poll_witness:
  "map_of (activeSummaryPolls (run [Start ''m1'' ''p1'' 0, Render, Tick 0] initial)) ''m1''
     = Some 0 \<and>
   map_of (latest (startSummaryPolling ''m1'' ''p2'' 1
       (run [Start ''m1'' ''p1'' 0, Render, Tick 0] initial))) ''m1'' = Some 1 \<and>
   0 \<in> cleared (run [Render, Settle 0 (Resolved processing), Tick 1, Settle 1 (Resolved completed)]
       (startSummaryPolling ''m1'' ''p2'' 1
          (run [Start ''m1'' ''p1'' 0, Render, Tick 0] initial))) \<and>
   length (callsBy 0
       (run [Render, Settle 0 (Resolved processing), Tick 1, Settle 1 (Resolved completed)]
         (startSummaryPolling ''m1'' ''p2'' 1
            (run [Start ''m1'' ''p1'' 0, Render, Tick 0] initial)))) \<le> 1 \<and>
   callsBy 1
       (run [Render, Settle 0 (Resolved processing), Tick 1, Settle 1 (Resolved completed)]
         (startSummaryPolling ''m1'' ''p2'' 1
            (run [Start ''m1'' ''p1'' 0, Render, Tick 0] initial))) = [(1, 1, completed)]"
proof -
  have h: "map_of (activeSummaryPolls (run [Start ''m1'' ''p1'' 0, Render, Tick 0] initial)) ''m1''
      = Some 0"
    by code_simp
  have l: "length (polls (run [Start ''m1'' ''p1'' 0, Render, Tick 0] initial)) = 1"
    "length (callsBy 0 (run [Start ''m1'' ''p1'' 0, Render, Tick 0] initial))
      + count_list (awaiting (run [Start ''m1'' ''p1'' 0, Render, Tick 0] initial)) 0 = 1"
    by code_simp+
  have c: "callsBy 1
       (run [Render, Settle 0 (Resolved processing), Tick 1, Settle 1 (Resolved completed)]
         (startSummaryPolling ''m1'' ''p2'' 1
            (run [Start ''m1'' ''p1'' 0, Render, Tick 0] initial))) = [(1, 1, completed)]"
    by code_simp
  show ?thesis
    using h l c start_replaces_poll[where jn = "''p2''" and cbn = 1 and
        evs = "[Render, Settle 0 (Resolved processing), Tick 1, Settle 1 (Resolved completed)]",
        OF refl refl h]
    by simp
qed

section \<open>Timeout\<close>

lemma untilTimeout_run:
  "run untilTimeout initial =
     \<lparr>activeSummaryPolls = [(''m1'', 0)], latest = [(''m1'', 0)], dirty = False,
      polls = [\<lparr>meetingId = ''m1'', processId = ''p1'', onUpdate = 0, pollCount = 119\<rparr>],
      cleared = {}, awaiting = [], calls = replicate 119 (0, 0, processing)\<rparr>"
  by code_simp

text \<open>
  C3, as stated: on the tick where the count reaches 120 the callback receives the record
  with status \<open>error\<close> and error \<open>timed out after 10 minutes\<close>. After 119 ticks that saw
  \<open>processing\<close> the next tick is that tick and makes one call, whose argument is not
  that record: the text of the code is longer.
\<close>

theorem timeout_message_counterexample:
  "pollCount (polls (run untilTimeout initial) ! 0) + 1 = MAX_POLLS \<and>
   0 \<notin> cleared (run untilTimeout initial) \<and>
   length (calls (pollTick 0 (run untilTimeout initial)))
     = length (calls (run untilTimeout initial)) + 1 \<and>
   last (calls (pollTick 0 (run untilTimeout initial))) \<noteq>
     (0, 0, \<lparr>status = ''error'', error = Some ''timed out after 10 minutes'', data = None\<rparr>)"
  by (simp add: untilTimeout_run handler_defs MAX_POLLS_def timedOut_def)

text \<open>
  C3, amended: for a running timer whose count is 119, the next tick calls no fetch,
  invokes \<open>onUpdate\<close> exactly once with the record of status \<open>error\<close> and error
  \<open>Summary generation timed out after 10 minutes. Please try again or check your model
  configuration.\<close>, clears the timer and removes the key from the map; whatever happens
  next, the timer never fires again and the count stays at \<open>MAX_POLLS\<close>.
\<close>

theorem timeout_tick:
  assumes "t < length (polls s)" and "t \<notin> cleared s"
    and "pollCount (polls s ! t) + 1 = MAX_POLLS"
  shows "awaiting (pollTick t s) = awaiting s \<and>
         calls (pollTick t s) = calls s @ [(t, onUpdate (polls s ! t),
           \<lparr>status = ''error'',
            error = Some ''Summary generation timed out after 10 minutes. Please try again or check your model configuration.'',
            data = None\<rparr>)] \<and>
         t \<in> cleared (pollTick t s) \<and>
         map_of (latest (pollTick t s)) (meetingId (polls s ! t)) = None \<and>
         pollTick t (run evs (pollTick t s)) = run evs (pollTick t s) \<and>
         pollCount (polls (run evs (pollTick t s)) ! t) = MAX_POLLS"
proof -
  have now: "awaiting (pollTick t s) = awaiting s"
    "calls (pollTick t s) = calls s @ [(t, onUpdate (polls s ! t), timedOut)]"
    "t \<in> cleared (pollTick t s)"
    "map_of (latest (pollTick t s)) (meetingId (polls s ! t)) = None"
    "t < length (polls (pollTick t s))"
    "pollCount (polls (pollTick t s) ! t) = MAX_POLLS"
    using assms by (simp_all add: handler_defs Let_def delete_conv')
  show ?thesis
    using now(1,2,3,4,6) cleared_run[OF now(3), of evs] never_fires_again[OF now(3), of evs]
      dead_poll_run[OF now(3) now(5), of evs]
    by (simp add: timedOut_def)
qed

theorem timeout_tick_witness:
  "0 < length (polls (run untilTimeout initial)) \<and>
   0 \<notin> cleared (run untilTimeout initial) \<and>
   pollCount (polls (run untilTimeout initial) ! 0) + 1 = MAX_POLLS \<and>
   length (calls (pollTick 0 (run untilTimeout initial))) = 120 \<and>
   0 \<in> cleared (pollTick 0 (run untilTimeout initial)) \<and>
   map_of (latest (pollTick 0 (run untilTimeout initial))) ''m1'' = None \<and>
   pollCount (polls (run [Tick 0, Render, Tick 0] (pollTick 0 (run untilTimeout initial))) ! 0)
     = 120"
proof -
  have h: "0 < length (polls (run untilTimeout initial))"
    "0 \<notin> cleared (run untilTimeout initial)"
    "pollCount (polls (run untilTimeout initial) ! 0) + 1 = MAX_POLLS"
    by (simp_all add: untilTimeout_run MAX_POLLS_def)
  have c: "length (calls (run untilTimeout initial)) = 119"
    "meetingId (polls (run untilTimeout initial) ! 0) = ''m1''"
    by (simp_all add: untilTimeout_run)
  show ?thesis
    using h c timeout_tick[OF h, of "[Tick 0, Render, Tick 0]"]
    by (simp add: MAX_POLLS_def)
qed

section \<open>Classification of a fetched status\<close>

lemma resume_continues:
  assumes "t < length (polls s)" and "t \<in> set (awaiting s)"
    and "status r \<noteq> ''completed''" and "status r \<noteq> ''error''" and "status r \<noteq> ''failed''"
    and "status r = ''idle'' \<Longrightarrow> pollCount (polls s ! t) \<le> 1"
  shows "pollResume t (Resolved r) s
    = s\<lparr>awaiting := remove1 t (awaiting s),
          calls := calls s @ [(t, onUpdate (polls s ! t), r)]\<rparr>"
  using assms by (auto simp: handler_defs Let_def)

lemma resume_stops:
  assumes "t < length (polls s)" and "t \<in> set (awaiting s)"
    and "status r = ''completed'' \<or> status r = ''error'' \<or> status r = ''failed''
         \<or> status r = ''idle'' \<and> pollCount (polls s ! t) > 1"
  shows "pollResume t (Resolved r) s
    = s\<lparr>awaiting := remove1 t (awaiting s),
          calls := calls s @ [(t, onUpdate (polls s ! t), r)],
          cleared := insert t (cleared s),
          latest := AList.delete (meetingId (polls s ! t)) (latest s),
          dirty := True\<rparr>"
  using assms by (auto simp: handler_defs Let_def)

lemma next_tick:
  "t < length (polls s) \<Longrightarrow> t \<notin> cleared s \<Longrightarrow>
   pollCount (polls (pollTick t s) ! t) = pollCount (polls s ! t) + 1"
  by (simp add: handler_defs Let_def)

text \<open>
  C4: a fetch that resolves with status \<open>idle\<close> while \<open>pollCount\<close> is 1 is not terminal:
  \<open>onUpdate\<close> receives the record and nothing else changes, so a running timer keeps
  running and its next tick is the second. With \<open>pollCount\<close> above 1 it is terminal:
  \<open>onUpdate\<close> receives the record, the timer is cleared for good and the key is removed
  from the map. The count is the one read when the fetch settles.
\<close>

theorem idle_after_first_tick_stops:
  assumes "t < length (polls s)" and "t \<in> set (awaiting s)" and "status r = ''idle''"
  shows "(pollCount (polls s ! t) = 1 \<longrightarrow>
            pollResume t (Resolved r) s
              = s\<lparr>awaiting := remove1 t (awaiting s),
                    calls := calls s @ [(t, onUpdate (polls s ! t), r)]\<rparr> \<and>
            (t \<notin> cleared s \<longrightarrow>
               t \<notin> cleared (pollResume t (Resolved r) s) \<and>
               pollCount (polls (pollTick t (pollResume t (Resolved r) s)) ! t) = 2)) \<and>
         (pollCount (polls s ! t) > 1 \<longrightarrow>
            calls (pollResume t (Resolved r) s) = calls s @ [(t, onUpdate (polls s ! t), r)] \<and>
            t \<in> cleared (pollResume t (Resolved r) s) \<and>
            map_of (latest (pollResume t (Resolved r) s)) (meetingId (polls s ! t)) = None \<and>
            pollTick t (run evs (pollResume t (Resolved r) s))
              = run evs (pollResume t (Resolved r) s))"
proof (intro conjI impI)
  assume one: "pollCount (polls s ! t) = 1"
  have eq: "pollResume t (Resolved r) s
      = s\<lparr>awaiting := remove1 t (awaiting s),
            calls := calls s @ [(t, onUpdate (polls s ! t), r)]\<rparr>"
    using assms one by (intro resume_continues) simp_all
  show "pollResume t (Resolved r) s
      = s\<lparr>awaiting := remove1 t (awaiting s),
            calls := calls s @ [(t, onUpdate (polls s ! t), r)]\<rparr>"
    by (rule eq)
  assume run: "t \<notin> cleared s"
  show "t \<notin> cleared (pollResume t (Resolved r) s)"
    using run by (simp add: eq)
  show "pollCount (polls (pollTick t (pollResume t (Resolved r) s)) ! t) = 2"
    using assms(1) run one by (simp add: eq next_tick)
next
  assume more: "pollCount (polls s ! t) > 1"
  have eq: "pollResume t (Resolved r) s
    = s\<lparr>awaiting := remove1 t (awaiting s),
          calls := calls s @ [(t, onUpdate (polls s ! t), r)],
          cleared := insert t (cleared s),
          latest := AList.delete (meetingId (polls s ! t)) (latest s),
          dirty := True\<rparr>"
    using assms more by (intro resume_stops) simp_all
  show "calls (pollResume t (Resolved r) s) = calls s @ [(t, onUpdate (polls s ! t), r)]"
    by (simp add: eq)
  show c: "t \<in> cleared (pollResume t (Resolved r) s)"
    by (simp add: eq)
  show "map_of (latest (pollResume t (Resolved r) s)) (meetingId (polls s ! t)) = None"
    by (simp add: eq delete_conv')
  show "pollTick t (run evs (pollResume t (Resolved r) s))
      = run evs (pollResume t (Resolved r) s)"
    by (rule never_fires_again[OF c])
qed

theorem idle_after_first_tick_stops_witness:
  "0 < length (polls (run scenarioC initial)) \<and> 0 \<in> set (awaiting (run scenarioC initial)) \<and>
   status idle = ''idle'' \<and> pollCount (polls (run scenarioC initial) ! 0) = 1 \<and>
   calls (pollResume 0 (Resolved idle) (run scenarioC initial)) = [(0, 0, idle)] \<and>
   0 \<notin> cleared (pollResume 0 (Resolved idle) (run scenarioC initial)) \<and>
   map_of (latest (pollResume 0 (Resolved idle) (run scenarioC initial))) ''m1'' = Some 0 \<and>
   pollCount (polls (pollTick 0 (pollResume 0 (Resolved idle) (run scenarioC initial))) ! 0) = 2 \<and>
   0 \<in> cleared (pollResume 0 (Resolved idle)
          (pollTick 0 (pollResume 0 (Resolved idle) (run scenarioC initial)))) \<and>
   map_of (latest (pollResume 0 (Resolved idle)
          (pollTick 0 (pollResume 0 (Resolved idle) (run scenarioC initial))))) ''m1'' = None"
proof -
  let ?s1 = "run scenarioC initial"
  let ?s2 = "pollTick 0 (pollResume 0 (Resolved idle) ?s1)"
  have s1: "?s1 =
     \<lparr>activeSummaryPolls = [(''m1'', 0)], latest = [(''m1'', 0)], dirty = False,
      polls = [\<lparr>meetingId = ''m1'', processId = ''p1'', onUpdate = 0, pollCount = 1\<rparr>],
      cleared = {}, awaiting = [0], calls = []\<rparr>"
    by code_simp
  have s2: "?s2 =
     \<lparr>activeSummaryPolls = [(''m1'', 0)], latest = [(''m1'', 0)], dirty = False,
      polls = [\<lparr>meetingId = ''m1'', processId = ''p1'', onUpdate = 0, pollCount = 2\<rparr>],
      cleared = {}, awaiting = [0], calls = [(0, 0, idle)]\<rparr>"
    by code_simp
  have i: "status idle = ''idle''" by (simp add: idle_def)
  have a: "0 < length (polls ?s1)" "0 \<in> set (awaiting ?s1)" "pollCount (polls ?s1 ! 0) = 1"
    by (simp_all add: s1)
  have b: "0 < length (polls ?s2)" "0 \<in> set (awaiting ?s2)" "pollCount (polls ?s2 ! 0) > 1"
    by (simp_all add: s2)
  have first: "calls (pollResume 0 (Resolved idle) ?s1) = [(0, 0, idle)]"
    "0 \<notin> cleared (pollResume 0 (Resolved idle) ?s1)"
    "map_of (latest (pollResume 0 (Resolved idle) ?s1)) ''m1'' = Some 0"
    using idle_after_first_tick_stops[OF a(1,2) i, of "[]"] a(3) by (simp_all add: s1)
  have later: "0 \<in> cleared (pollResume 0 (Resolved idle) ?s2)"
    "map_of (latest (pollResume 0 (Resolved idle) ?s2)) ''m1'' = None"
    using idle_after_first_tick_stops[OF b(1,2) i, of "[]"] b(3) by (simp_all add: s2)
  show ?thesis
    using a i first later by (simp add: s2)
qed

text \<open>
  C5: a fetch that resolves with status \<open>completed\<close>, \<open>error\<close> or \<open>failed\<close> is terminal:
  \<open>onUpdate\<close> receives the fetched record, the timer is cleared and never fires again,
  and the key is removed from the map. In scenario A the callback is called three times,
  with \<open>processing\<close>, \<open>processing\<close> and \<open>completed\<close>; the key is in the map before the
  third call and in neither map after it.
\<close>

theorem terminal_status_stops:
  "(t < length (polls s) \<and> t \<in> set (awaiting s) \<and>
    (status r = ''completed'' \<or> status r = ''error'' \<or> status r = ''failed'') \<longrightarrow>
      calls (pollResume t (Resolved r) s) = calls s @ [(t, onUpdate (polls s ! t), r)] \<and>
      t \<in> cleared (pollResume t (Resolved r) s) \<and>
      map_of (latest (pollResume t (Resolved r) s)) (meetingId (polls s ! t)) = None \<and>
      pollTick t (run evs (pollResume t (Resolved r) s)) = run evs (pollResume t (Resolved r) s)) \<and>
   calls (run scenarioA initial) = [(0, 0, processing), (0, 0, processing), (0, 0, completed)] \<and>
   map_of (latest (run (butlast scenarioA) initial)) ''m1'' = Some 0 \<and>
   map_of (latest (run scenarioA initial)) ''m1'' = None \<and>
   map_of (activeSummaryPolls (render (run scenarioA initial))) ''m1'' = None"
proof (intro conjI impI)
  assume h: "t < length (polls s) \<and> t \<in> set (awaiting s) \<and>
    (status r = ''completed'' \<or> status r = ''error'' \<or> status r = ''failed'')"
  then have eq: "pollResume t (Resolved r) s
    = s\<lparr>awaiting := remove1 t (awaiting s),
          calls := calls s @ [(t, onUpdate (polls s ! t), r)],
          cleared := insert t (cleared s),
          latest := AList.delete (meetingId (polls s ! t)) (latest s),
          dirty := True\<rparr>"
    by (intro resume_stops) auto
  show "calls (pollResume t (Resolved r) s) = calls s @ [(t, onUpdate (polls s ! t), r)]"
    by (simp add: eq)
  show c: "t \<in> cleared (pollResume t (Resolved r) s)"
    by (simp add: eq)
  show "map_of (latest (pollResume t (Resolved r) s)) (meetingId (polls s ! t)) = None"
    by (simp add: eq delete_conv')
  show "pollTick t (run evs (pollResume t (Resolved r) s)) = run evs (pollResume t (Resolved r) s)"
    by (rule never_fires_again[OF c])
next
  show "calls (run scenarioA initial) = [(0, 0, processing), (0, 0, processing), (0, 0, completed)]"
    by code_simp
  show "map_of (latest (run (butlast scenarioA) initial)) ''m1'' = Some 0"
    by code_simp
  show "map_of (latest (run scenarioA initial)) ''m1'' = None"
    by code_simp
  show "map_of (activeSummaryPolls (render (run scenarioA initial))) ''m1'' = None"
    by code_simp
qed

theorem terminal_status_stops_witness:
  "0 < length (polls (run (butlast scenarioA) initial)) \<and>
   0 \<in> set (awaiting (run (butlast scenarioA) initial)) \<and>
   status completed = ''completed'' \<and>
   length (calls (pollResume 0 (Resolved completed) (run (butlast scenarioA) initial))) = 3 \<and>
   0 \<in> cleared (pollResume 0 (Resolved completed) (run (butlast scenarioA) initial)) \<and>
   map_of (latest (pollResume 0 (Resolved completed) (run (butlast scenarioA) initial))) ''m1''
     = None"
proof -
  have s: "run (butlast scenarioA) initial =
     \<lparr>activeSummaryPolls = [(''m1'', 0)], latest = [(''m1'', 0)], dirty = False,
      polls = [\<lparr>meetingId = ''m1'', processId = ''p1'', onUpdate = 0, pollCount = 3\<rparr>],
      cleared = {}, awaiting = [0], calls = [(0, 0, processing), (0, 0, processing)]\<rparr>"
    by code_simp
  have c: "status completed = ''completed''" by (simp add: completed_def)
  show ?thesis
    using c terminal_status_stops[of 0 "run (butlast scenarioA) initial" completed "[]"]
    by (simp add: s)
qed

text \<open>
  C10: a fetch that resolves with a status outside \<open>queued\<close>, \<open>processing\<close>,
  \<open>completed\<close>, \<open>error\<close>, \<open>failed\<close> and \<open>idle\<close> is not terminal: \<open>onUpdate\<close> receives the
  fetched record and nothing else changes, so the key stays in the map, a running timer
  keeps running and its next tick counts one more.
\<close>

theorem unknown_status_continues:
  assumes "t < length (polls s)" and "t \<in> set (awaiting s)"
    and "status r \<notin> {''queued'', ''processing'', ''completed'', ''error'', ''failed'', ''idle''}"
  shows "pollResume t (Resolved r) s
           = s\<lparr>awaiting := remove1 t (awaiting s),
                 calls := calls s @ [(t, onUpdate (polls s ! t), r)]\<rparr> \<and>
         (t \<notin> cleared s \<longrightarrow>
            t \<notin> cleared (pollResume t (Resolved r) s) \<and>
            pollCount (polls (pollTick t (pollResume t (Resolved r) s)) ! t)
              = pollCount (polls s ! t) + 1)"
proof -
  have eq: "pollResume t (Resolved r) s
      = s\<lparr>awaiting := remove1 t (awaiting s),
            calls := calls s @ [(t, onUpdate (polls s ! t), r)]\<rparr>"
    using assms by (intro resume_continues) simp_all
  show ?thesis
    using assms(1) by (simp add: eq next_tick)
qed

theorem unknown_status_continues_witness:
  "0 < length (polls (run scenarioC initial)) \<and> 0 \<in> set (awaiting (run scenarioC initial)) \<and>
   status regenerating \<notin> {''queued'', ''processing'', ''completed'', ''error'', ''failed'', ''idle''} \<and>
   calls (pollResume 0 (Resolved regenerating) (run scenarioC initial)) = [(0, 0, regenerating)] \<and>
   map_of (latest (pollResume 0 (Resolved regenerating) (run scenarioC initial))) ''m1'' = Some 0 \<and>
   0 \<notin> cleared (pollResume 0 (Resolved regenerating) (run scenarioC initial)) \<and>
   pollCount (polls (pollTick 0 (pollResume 0 (Resolved regenerating) (run scenarioC initial))) ! 0)
     = 2"
proof -
  have s: "run scenarioC initial =
     \<lparr>activeSummaryPolls = [(''m1'', 0)], latest = [(''m1'', 0)], dirty = False,
      polls = [\<lparr>meetingId = ''m1'', processId = ''p1'', onUpdate = 0, pollCount = 1\<rparr>],
      cleared = {}, awaiting = [0], calls = []\<rparr>"
    by code_simp
  have a: "0 < length (polls (run scenarioC initial))" "0 \<in> set (awaiting (run scenarioC initial))"
    by (simp_all add: s)
  have u: "status regenerating
      \<notin> {''queued'', ''processing'', ''completed'', ''error'', ''failed'', ''idle''}"
    by (simp add: regenerating_def)
  have now: "calls (pollResume 0 (Resolved regenerating) (run scenarioC initial))
      = [(0, 0, regenerating)]"
    "map_of (latest (pollResume 0 (Resolved regenerating) (run scenarioC initial))) ''m1'' = Some 0"
    using unknown_status_continues[OF a u, THEN conjunct1] by (simp_all add: s)
  have after: "0 \<notin> cleared (pollResume 0 (Resolved regenerating) (run scenarioC initial)) \<and>
    pollCount (polls (pollTick 0 (pollResume 0 (Resolved regenerating) (run scenarioC initial))) ! 0)
      = 2"
    using unknown_status_continues[OF a u, THEN conjunct2] by (simp add: s)
  show ?thesis
    using a u now after by simp
qed

section \<open>Fetch failure\<close>

text \<open>
  C6, as stated: a fetch failure is terminal and \<open>onUpdate\<close> receives the record with
  status \<open>error\<close> and the failure's message. The \<^verbatim>\<open>catch\<close> block takes the message
  from an \<^verbatim>\<open>Error\<close> object only: when the fetch of the suspended first tick rejects
  with the string \<open>connection refused\<close>, the callback receives the error
  \<open>Unknown error\<close> and the text of the failure is lost.
\<close>

theorem fetch_failure_message_counterexample:
  "0 \<in> set (awaiting (run scenarioC initial)) \<and>
   calls (pollResume 0 (Rejected (OtherValue ''connection refused'')) (run scenarioC initial))
     = [(0, 0, \<lparr>status = ''error'', error = Some ''Unknown error'', data = None\<rparr>)] \<and>
   calls (pollResume 0 (Rejected (OtherValue ''connection refused'')) (run scenarioC initial))
     \<noteq> [(0, 0, \<lparr>status = ''error'', error = Some ''connection refused'', data = None\<rparr>)]"
  by code_simp

text \<open>
  C6, amended: a rejected fetch is terminal: \<open>onUpdate\<close> receives the record with status
  \<open>error\<close> whose error is the message of the failure when the failure is an
  \<^verbatim>\<open>Error\<close> object and the fixed text \<open>Unknown error\<close> for any other rejected value,
  the timer is cleared and the key removed from the map; whatever happens next, the timer
  never fires again and the count of its ticks stays where it was, so the fetch is not
  tried again.
\<close>

theorem fetch_failure_stops:
  assumes "t < length (polls s)" and "t \<in> set (awaiting s)"
  shows "calls (pollResume t (Rejected e) s) = calls s @ [(t, onUpdate (polls s ! t),
           \<lparr>status = ''error'',
            error = Some (case e of ErrorObject m \<Rightarrow> m | OtherValue v \<Rightarrow> ''Unknown error''),
            data = None\<rparr>)] \<and>
         t \<in> cleared (pollResume t (Rejected e) s) \<and>
         map_of (latest (pollResume t (Rejected e) s)) (meetingId (polls s ! t)) = None \<and>
         pollTick t (run evs (pollResume t (Rejected e) s)) = run evs (pollResume t (Rejected e) s) \<and>
         pollCount (polls (run evs (pollResume t (Rejected e) s)) ! t) = pollCount (polls s ! t)"
proof -
  have eq: "pollResume t (Rejected e) s
    = s\<lparr>awaiting := remove1 t (awaiting s),
          calls := calls s @ [(t, onUpdate (polls s ! t), failed e)],
          cleared := insert t (cleared s),
          latest := AList.delete (meetingId (polls s ! t)) (latest s),
          dirty := True\<rparr>"
    using assms by (simp add: handler_defs)
  have msg: "message e = (case e of ErrorObject m \<Rightarrow> m | OtherValue v \<Rightarrow> ''Unknown error'')"
    by (cases e) simp_all
  have c: "t \<in> cleared (pollResume t (Rejected e) s)"
    by (simp add: eq)
  have l: "t < length (polls (pollResume t (Rejected e) s))"
    using assms(1) by (simp add: eq)
  show ?thesis
    using c never_fires_again[OF c, of evs] dead_poll_run[OF c l, of evs]
    by (simp add: eq failed_def msg delete_conv')
qed

theorem fetch_failure_stops_witness:
  "0 < length (polls (run scenarioC initial)) \<and> 0 \<in> set (awaiting (run scenarioC initial)) \<and>
   calls (pollResume 0 (Rejected (ErrorObject ''connection refused'')) (run scenarioC initial))
     = [(0, 0, \<lparr>status = ''error'', error = Some ''connection refused'', data = None\<rparr>)] \<and>
   calls (pollResume 0 (Rejected (OtherValue ''timeout'')) (run scenarioC initial))
     = [(0, 0, \<lparr>status = ''error'', error = Some ''Unknown error'', data = None\<rparr>)] \<and>
   0 \<in> cleared (pollResume 0 (Rejected (OtherValue ''timeout'')) (run scenarioC initial)) \<and>
   map_of (latest (pollResume 0 (Rejected (OtherValue ''timeout'')) (run scenarioC initial))) ''m1''
     = None \<and>
   pollCount (polls (run [Render, Tick 0, Tick 0]
      (pollResume 0 (Rejected (OtherValue ''timeout'')) (run scenarioC initial))) ! 0) = 1"
proof -
  have s: "run scenarioC initial =
     \<lparr>activeSummaryPolls = [(''m1'', 0)], latest = [(''m1'', 0)], dirty = False,
      polls = [\<lparr>meetingId = ''m1'', processId = ''p1'', onUpdate = 0, pollCount = 1\<rparr>],
      cleared = {}, awaiting = [0], calls = []\<rparr>"
    by code_simp
  have a: "0 < length (polls (run scenarioC initial))" "0 \<in> set (awaiting (run scenarioC initial))"
    by (simp_all add: s)
  show ?thesis
    using a fetch_failure_stops[OF a, of "ErrorObject ''connection refused''" "[]"]
      fetch_failure_stops[OF a, of "OtherValue ''timeout''" "[Render, Tick 0, Tick 0]"]
    by (simp add: s)
qed

section \<open>The key\<close>

text \<open>
  C7, as stated: for the empty key \<open>start\<close> is a no-op, no handle is created, no timer
  scheduled and the callback never invoked. \<^verbatim>\<open>startSummaryPolling\<close> does not look at
  the key: started on the initial state with the empty string it changes the state, the
  map holds timer 0 for the empty key, the timer runs, and in the run \<open>emptyKey\<close> the
  callback receives the first fetched status.
\<close>

theorem start_empty_key_counterexample:
  "startSummaryPolling [] ''p1'' 0 initial \<noteq> initial \<and>
   map_of (latest (startSummaryPolling [] ''p1'' 0 initial)) [] = Some 0 \<and>
   0 \<notin> cleared (startSummaryPolling [] ''p1'' 0 initial) \<and>
   calls (run emptyKey initial) = [(0, 0, processing)]"
  by code_simp

text \<open>
  C7, amended: \<open>start\<close> does not validate the key. For the empty key, as for any other,
  in every reachable state it creates a handle with \<open>pollCount = 0\<close>, registers its timer
  under the key and leaves that timer running; \<open>start\<close> itself does not invoke the callback.
\<close>

theorem start_accepts_empty_key:
  "polls (startSummaryPolling [] j cb (run evs initial))
     = polls (run evs initial) @ [\<lparr>meetingId = [], processId = j, onUpdate = cb, pollCount = 0\<rparr>] \<and>
   map_of (latest (startSummaryPolling [] j cb (run evs initial))) []
     = Some (length (polls (run evs initial))) \<and>
   length (polls (run evs initial)) \<notin> cleared (startSummaryPolling [] j cb (run evs initial)) \<and>
   calls (startSummaryPolling [] j cb (run evs initial)) = calls (run evs initial)"
proof -
  have wf: "wellFormed (run evs initial)" by (rule wellFormed_reachable)
  then have "length (polls (run evs initial)) \<notin> cleared (run evs initial)"
    by (auto simp: wellFormed_def)
  moreover have "map_of (activeSummaryPolls (run evs initial)) [] \<noteq> Some (length (polls (run evs initial)))"
    using wf by (auto simp: wellFormed_def dest!: map_of_SomeD)
  ultimately have "length (polls (run evs initial))
      \<notin> cleared (startSummaryPolling [] j cb (run evs initial))"
    by (auto simp: handler_defs Let_def split: option.splits)
  moreover have "calls (startSummaryPolling [] j cb (run evs initial)) = calls (run evs initial)"
    by (simp add: handler_defs Let_def split: option.splits)
  ultimately show ?thesis
    by (simp add: polls_start latest_start)
qed

theorem start_accepts_empty_key_witness:
  "polls (startSummaryPolling [] ''p1'' 0 (run [] initial))
     = [\<lparr>meetingId = [], processId = ''p1'', onUpdate = 0, pollCount = 0\<rparr>] \<and>
   map_of (latest (startSummaryPolling [] ''p1'' 0 (run [] initial))) [] = Some 0 \<and>
   0 \<notin> cleared (startSummaryPolling [] ''p1'' 0 (run [] initial)) \<and>
   calls (startSummaryPolling [] ''p1'' 0 (run [] initial)) = []"
  using start_accepts_empty_key[of "''p1''" 0 "[]"] by (simp add: initial_def)

section \<open>The tick count\<close>

lemma pollCount_step:
  assumes "t < length (polls s)"
  shows "polls (step e s) ! t = polls s ! t \<or>
         e = Tick t \<and> t \<notin> cleared s \<and>
         pollCount (polls (step e s) ! t) = pollCount (polls s ! t) + 1"
proof (cases e)
  case (Tick u)
  with assms show ?thesis
    by (auto simp: handler_defs Let_def nth_list_update)
qed (use assms in \<open>auto simp: handler_defs Let_def nth_append split: option.splits outcome.splits\<close>)

lemma pollCount_step_mono:
  "t < length (polls s) \<Longrightarrow> pollCount (polls s ! t) \<le> pollCount (polls (step e s) ! t)"
  using pollCount_step[of t s e] by auto

lemma pollCount_run_mono:
  "t < length (polls s) \<Longrightarrow> pollCount (polls s ! t) \<le> pollCount (polls (run evs s) ! t)"
proof (induction evs arbitrary: s)
  case Nil
  show ?case by simp
next
  case (Cons e evs)
  have l: "t < length (polls (step e s))"
    using Cons.prems length_polls_step[of s e] by simp
  have "pollCount (polls s ! t) \<le> pollCount (polls (step e s) ! t)"
    using Cons.prems by (rule pollCount_step_mono)
  also have "\<dots> \<le> pollCount (polls (run evs (step e s)) ! t)"
    by (rule Cons.IH[OF l])
  finally show ?case by simp
qed

text \<open>
  C8: \<open>pollCount\<close> is 0 in a new handle; a tick of a running timer adds exactly one to
  it and no other event changes it; it never decreases along a run; and in every state
  reachable from the initial one it is at most \<open>MAX_POLLS\<close>.
\<close>

theorem pollCount_bounded:
  "pollCount (polls (startSummaryPolling k j cb s) ! length (polls s)) = 0 \<and>
   (t < length (polls s) \<and> t \<notin> cleared s \<longrightarrow>
      pollCount (polls (pollTick t s) ! t) = pollCount (polls s ! t) + 1) \<and>
   (t < length (polls s) \<and> e \<noteq> Tick t \<longrightarrow> pollCount (polls (step e s) ! t) = pollCount (polls s ! t)) \<and>
   (t < length (polls s) \<longrightarrow> pollCount (polls s ! t) \<le> pollCount (polls (run evs s) ! t)) \<and>
   (t < length (polls (run evs initial)) \<longrightarrow>
      pollCount (polls (run evs initial) ! t) \<le> MAX_POLLS)"
proof (intro conjI impI)
  show "pollCount (polls (startSummaryPolling k j cb s) ! length (polls s)) = 0"
    by (simp add: polls_start)
next
  assume "t < length (polls s) \<and> t \<notin> cleared s"
  then show "pollCount (polls (pollTick t s) ! t) = pollCount (polls s ! t) + 1"
    by (simp add: next_tick)
next
  assume "t < length (polls s) \<and> e \<noteq> Tick t"
  then show "pollCount (polls (step e s) ! t) = pollCount (polls s ! t)"
    using pollCount_step[of t s e] by auto
next
  assume "t < length (polls s)"
  then show "pollCount (polls s ! t) \<le> pollCount (polls (run evs s) ! t)"
    by (rule pollCount_run_mono)
next
  assume "t < length (polls (run evs initial))"
  with wellFormed_reachable[of evs]
  show "pollCount (polls (run evs initial) ! t) \<le> MAX_POLLS"
    by (simp add: wellFormed_def)
qed

theorem pollCount_bounded_witness:
  "pollCount (polls (startSummaryPolling ''m1'' ''p1'' 0 initial) ! 0) = 0 \<and>
   0 < length (polls (run untilTimeout initial)) \<and> 0 \<notin> cleared (run untilTimeout initial) \<and>
   pollCount (polls (run untilTimeout initial) ! 0) = 119 \<and>
   pollCount (polls (pollTick 0 (run untilTimeout initial)) ! 0) = 120 \<and>
   pollCount (polls (step Render (run untilTimeout initial)) ! 0) = 119 \<and>
   119 \<le> pollCount (polls (run [Tick 0, Tick 0, Tick 0] (run untilTimeout initial)) ! 0) \<and>
   pollCount (polls (run untilTimeout initial) ! 0) \<le> MAX_POLLS"
proof -
  have a: "0 < length (polls (run untilTimeout initial))"
    "0 \<notin> cleared (run untilTimeout initial)"
    "pollCount (polls (run untilTimeout initial) ! 0) = 119"
    by (simp_all add: untilTimeout_run)
  have i: "length (polls initial) = 0" by (simp add: initial_def)
  show ?thesis
    using a i pollCount_bounded[of "''m1''" "''p1''" 0 initial 0 Render "[]"]
      pollCount_bounded[of "''m1''" "''p1''" 0 "run untilTimeout initial" 0 Render
        "[Tick 0, Tick 0, Tick 0]"]
      pollCount_bounded[of "''m1''" "''p1''" 0 initial 0 Render untilTimeout]
    by simp
qed

section \<open>Independence of keys\<close>

text \<open>
  What \<^verbatim>\<open>stopSummaryPolling\<close> does by itself: suspended callbacks, closures and
  recorded calls are untouched, the entries of other keys stay, only the timer registered
  for the key is cleared, and for a key the rendered map does not hold nothing happens.
\<close>

lemma stop_frame:
  "awaiting (stopSummaryPolling k s) = awaiting s \<and>
   polls (stopSummaryPolling k s) = polls s \<and>
   calls (stopSummaryPolling k s) = calls s \<and>
   (k' \<noteq> k \<longrightarrow> map_of (latest (stopSummaryPolling k s)) k' = map_of (latest s) k') \<and>
   (map_of (activeSummaryPolls s) k \<noteq> Some t \<longrightarrow>
      (t \<in> cleared (stopSummaryPolling k s)) = (t \<in> cleared s)) \<and>
   (map_of (activeSummaryPolls s) k = None \<longrightarrow> stopSummaryPolling k s = s)"
  by (auto simp: handler_defs split: option.splits)

text \<open>
  C9: for distinct keys with live handles, \<open>stop(k1)\<close> leaves the handle, timer, ticks
  and callback delivery of \<open>k2\<close> unchanged. The comment on the effect says that it cleans
  up the intervals on unmount, but its dependency is the map, so its cleanup runs at the
  render that every \<^verbatim>\<open>setActiveSummaryPolls\<close> causes, over the map of the render
  before. With \<open>m1\<close> and \<open>m2\<close> both registered and running, the stop of \<open>m1\<close> clears
  timer 0 only; the render that follows clears timer 1 as well, \<open>m2\<close> stays in the map,
  and its interval never fires again.
\<close>

theorem stop_render_clears_other_poll:
  "map_of (activeSummaryPolls (run stopOther initial)) ''m1'' = Some 0 \<and>
   map_of (activeSummaryPolls (run stopOther initial)) ''m2'' = Some 1 \<and>
   cleared (run stopOther initial) = {} \<and>
   cleared (stopSummaryPolling ''m1'' (run stopOther initial)) = {0} \<and>
   cleared (render (stopSummaryPolling ''m1'' (run stopOther initial))) = {0, 1} \<and>
   activeSummaryPolls (render (stopSummaryPolling ''m1'' (run stopOther initial))) = [(''m2'', 1)] \<and>
   pollTick 1 (render (stopSummaryPolling ''m1'' (run stopOther initial)))
     = render (stopSummaryPolling ''m1'' (run stopOther initial))"
  by code_simp

end
